theory Spec2Isabelle
  imports Main "HOL-Library.Word"
begin

section \<open>The C++ type double: IEEE 754 binary64, round to nearest even\<close>

text \<open>
  Every finite binary64 number is an integer multiple of \<open>2 ^ -1074\<close> (the smallest
  subnormal). \<open>Fin s k\<close> is the number of sign \<open>s\<close> (True: negative) and magnitude
  \<open>k * 2 ^ -1074\<close>; both zeros exist (\<open>Fin False 0\<close>, \<open>Fin True 0\<close>). \<open>Infty s\<close> is
  the infinity of sign \<open>s\<close>. All NaNs are one value: their payload is not fixed by C++.
  The arithmetic is the one of the default floating-point environment (round to nearest,
  ties to even, no traps), one rounding per operation (no fused multiply-add).
\<close>

datatype double = Fin bool nat | Infty bool | NaN

text \<open>The number 1.0 is \<open>2 ^ 1074\<close> units.\<close>

definition one_mag :: nat where
  "one_mag = 2 ^ 1074"

text \<open>The largest finite magnitude, \<open>(2 ^ 53 - 1) * 2 ^ 971\<close>, in units.\<close>

definition max_mag :: nat where
  "max_mag = (2 ^ 53 - 1) * 2 ^ 2045"

text \<open>The number of binary digits of a natural number.\<close>

fun bitlen :: "nat \<Rightarrow> nat" where
  "bitlen n = (if n = 0 then 0 else Suc (bitlen (n div 2)))"

declare bitlen.simps [simp del]

text \<open>
  A magnitude is representable when it has at most 53 significant bits: it is a
  multiple of the spacing \<open>2 ^ (bitlen k - 53)\<close> of its binade (the spacing is one unit
  for the subnormals and the first normal binade).
\<close>

definition representable :: "nat \<Rightarrow> bool" where
  "representable k = (k mod 2 ^ (bitlen k - 53) = 0)"

fun is_double :: "double \<Rightarrow> bool" where
  "is_double (Fin s k) = (representable k \<and> k \<le> max_mag)"
| "is_double (Infty s) = True"
| "is_double NaN = True"

fun is_finite :: "double \<Rightarrow> bool" where
  "is_finite (Fin s k) = True"
| "is_finite (Infty s) = False"
| "is_finite NaN = False"

fun is_inf_or_nan :: "double \<Rightarrow> bool" where
  "is_inf_or_nan (Fin s k) = False"
| "is_inf_or_nan (Infty s) = True"
| "is_inf_or_nan NaN = True"

text \<open>The fraction \<open>n / d\<close> rounded to the nearest natural number, a tie to the even one.\<close>

definition rnd_even :: "nat \<Rightarrow> nat \<Rightarrow> nat" where
  "rnd_even n d =
     (let q = n div d; r = n mod d
      in if 2 * r < d then q
         else if d < 2 * r then q + 1
         else if even q then q else q + 1)"

text \<open>
  The magnitude \<open>n / d\<close> (in units) rounded to 53 significant bits, the exponent
  unbounded above: the spacing of the binade of \<open>n / d\<close> is \<open>2 ^ j\<close> units.
\<close>

definition round_mag :: "nat \<Rightarrow> nat \<Rightarrow> nat" where
  "round_mag n d =
     (let j = bitlen (n div d) - 53
      in rnd_even n (d * 2 ^ j) * 2 ^ j)"

text \<open>The exact result \<open>n / d\<close> units of sign \<open>s\<close> as a double: overflow gives infinity.\<close>

definition mk_double :: "bool \<Rightarrow> nat \<Rightarrow> nat \<Rightarrow> double" where
  "mk_double s n d =
     (let k = round_mag n d
      in if max_mag < k then Infty s else Fin s k)"

text \<open>A decimal literal \<open>n / d\<close> of the source, converted to the nearest double.\<close>

definition dlit :: "nat \<Rightarrow> nat \<Rightarrow> double" where
  "dlit n d = mk_double False (n * one_mag) d"

fun dneg :: "double \<Rightarrow> double" where
  "dneg (Fin s k) = Fin (\<not> s) k"
| "dneg (Infty s) = Infty (\<not> s)"
| "dneg NaN = NaN"

fun dadd :: "double \<Rightarrow> double \<Rightarrow> double" where
  "dadd (Fin s a) (Fin t b) =
     (if s = t then mk_double s (a + b) 1
      else if a = b then Fin False 0
      else if b < a then mk_double s (a - b) 1
      else mk_double t (b - a) 1)"
| "dadd (Fin s a) (Infty t) = Infty t"
| "dadd (Infty s) (Fin t b) = Infty s"
| "dadd (Infty s) (Infty t) = (if s = t then Infty s else NaN)"
| "dadd NaN y = NaN"
| "dadd x NaN = NaN"

fun dmul :: "double \<Rightarrow> double \<Rightarrow> double" where
  "dmul (Fin s a) (Fin t b) = mk_double (s \<noteq> t) (a * b) one_mag"
| "dmul (Fin s a) (Infty t) = (if a = 0 then NaN else Infty (s \<noteq> t))"
| "dmul (Infty s) (Fin t b) = (if b = 0 then NaN else Infty (s \<noteq> t))"
| "dmul (Infty s) (Infty t) = Infty (s \<noteq> t)"
| "dmul NaN y = NaN"
| "dmul x NaN = NaN"

fun ddiv :: "double \<Rightarrow> double \<Rightarrow> double" where
  "ddiv (Fin s a) (Fin t b) =
     (if b = 0 then (if a = 0 then NaN else Infty (s \<noteq> t))
      else mk_double (s \<noteq> t) (a * one_mag) b)"
| "ddiv (Fin s a) (Infty t) = Fin (s \<noteq> t) 0"
| "ddiv (Infty s) (Fin t b) = Infty (s \<noteq> t)"
| "ddiv (Infty s) (Infty t) = NaN"
| "ddiv NaN y = NaN"
| "ddiv x NaN = NaN"

text \<open>The operators of the source, on doubles: \<open>x - y\<close> is \<open>x + (- y)\<close> in IEEE 754.\<close>

instantiation double :: "{plus, minus, uminus, times, inverse}"
begin

definition plus_double :: "double \<Rightarrow> double \<Rightarrow> double" where
  "plus_double x y = dadd x y"

definition minus_double :: "double \<Rightarrow> double \<Rightarrow> double" where
  "minus_double x y = dadd x (dneg y)"

definition uminus_double :: "double \<Rightarrow> double" where
  "uminus_double x = dneg x"

definition times_double :: "double \<Rightarrow> double \<Rightarrow> double" where
  "times_double x y = dmul x y"

definition divide_double :: "double \<Rightarrow> double \<Rightarrow> double" where
  "divide_double x y = ddiv x y"

definition inverse_double :: "double \<Rightarrow> double" where
  "inverse_double x = ddiv (dlit 1 1) x"

instance ..

end

section \<open>The exceptions of \<open>stdexcept\<close>\<close>

datatype exception_class =
    logic_error | invalid_argument | domain_error | length_error | out_of_range
  | runtime_error | range_error | overflow_error | underflow_error

text \<open>An exception object: its class and the message \<open>what()\<close> returns.\<close>

datatype exn = Exn (cls: exception_class) (what: string)

section \<open>coefficient.cpp\<close>

text \<open>
  \<open>enum class Sex { M, F }\<close>: the underlying type is \<open>int\<close>, \<open>M\<close> is 0 and \<open>F\<close> is 1;
  a value of the type can hold any other \<open>int\<close> (a cast, or the binding's constructor
  from an integer).
\<close>

type_synonym Sex = "32 word"

definition Sex_M :: Sex where
  "Sex_M = 0"

definition Sex_F :: Sex where
  "Sex_F = 1"

text \<open>The six classes derived from \<open>abc_Widmark\<close>; none has a data member.\<close>

datatype strategy = Widmark | Watson | Forrest | Seidl | Ulrich | Average

text \<open>The virtual \<open>forward_F\<close>, by the dynamic class of the object.\<close>

fun forward_F :: "strategy \<Rightarrow> double \<Rightarrow> double \<Rightarrow> double \<Rightarrow> exn + double" where
  "forward_F Widmark H W g = Inr (dlit 55 100)"
| "forward_F Watson H W g =
     Inr (dlit 29218 100000 + (dlit 12666 1000 * H - dlit 24846 10000) / W)"
| "forward_F Forrest H W g =
     Inr (dlit 8736 10000 - dlit 124 10000 * W / (H * H))"
| "forward_F Seidl H W g =
     Inr (dlit 31223 100000 - dlit 6446 1000000 * W + dlit 4466 10000 * H)"
| "forward_F Ulrich H W g = Inl (Exn invalid_argument ''No estimator available'')"
| "forward_F Average H W g =
     Inr (dlit 50766 100000 + dlit 11165 100000 * H
          - W * (dlit 1612 1000000 + dlit 31 10000 / (H * H))
          - (dlit 1 1 / W) * (dlit 62115 100000 - dlit 31665 10000 * H))"

text \<open>The virtual \<open>forward_M\<close>.\<close>

fun forward_M :: "strategy \<Rightarrow> double \<Rightarrow> double \<Rightarrow> double \<Rightarrow> exn + double" where
  "forward_M Widmark H W g = Inr (dlit 68 100)"
| "forward_M Watson H W g =
     Inr (dlit 39834 100000
          + (dlit 12725 1000 * H - dlit 11275 100000 * g + dlit 28993 10000) / W)"
| "forward_M Forrest H W g =
     Inr (dlit 10178 10000 - dlit 12127 1000000 * W / (H * H))"
| "forward_M Seidl H W g =
     Inr (dlit 31608 100000 - dlit 4821 1000000 * W + dlit 4632 10000 * H)"
| "forward_M Ulrich H W g =
     Inr (dlit 715 1000 - dlit 462 100000 * W + dlit 22 100 * H)"
| "forward_M Average H W g =
     Inr (dlit 62544 100000 + dlit 13664 100000 * H
          - W * (dlit 189 100000 + dlit 2425 1000000 / (H * H))
          + (dlit 1 1 / W) * (dlit 57986 100000 + dlit 2545 1000 * H - dlit 2255 100000 * g))"

text \<open>\<open>abc_Widmark::operator()\<close>.\<close>

definition call :: "strategy \<Rightarrow> Sex \<Rightarrow> double \<Rightarrow> double \<Rightarrow> double \<Rightarrow> exn + double" where
  "call self sex H W g =
     (if sex = Sex_F then forward_F self H W g
      else if sex = Sex_M then forward_M self H W g
      else Inl (Exn invalid_argument ''Invalid sex''))"

text \<open>
  The driver \<open>main\<close>. The stream \<open>std::cout\<close> is the list of the items inserted into
  it; a statement takes the stream and returns it with a value or the exception thrown.
\<close>

datatype token = Str string | Dbl double | Endl

type_synonym ostream = "token list"

type_synonym 'a stmt = "ostream \<Rightarrow> (exn + 'a) \<times> ostream"

definition put :: "token \<Rightarrow> unit stmt" where
  "put t out = (Inr (), out @ [t])"

definition bind_stmt :: "'a stmt \<Rightarrow> ('a \<Rightarrow> 'b stmt) \<Rightarrow> 'b stmt" where
  "bind_stmt m f out =
     (case m out of
        (Inl e, out') \<Rightarrow> (Inl e, out')
      | (Inr v, out') \<Rightarrow> f v out')"

definition then_stmt :: "unit stmt \<Rightarrow> 'b stmt \<Rightarrow> 'b stmt" where
  "then_stmt m k = bind_stmt m (\<lambda>_. k)"

text \<open>\<open>try { m } catch (const std::invalid_argument &e) { h e }\<close>.\<close>

definition try_catch :: "unit stmt \<Rightarrow> (exn \<Rightarrow> unit stmt) \<Rightarrow> unit stmt" where
  "try_catch m h out =
     (case m out of
        (Inl e, out') \<Rightarrow> if cls e = invalid_argument then h e out' else (Inl e, out')
      | (Inr v, out') \<Rightarrow> (Inr v, out'))"

text \<open>
  The expression \<open>self(sex, H, W, g)\<close> as a statement: \<open>operator()\<close> and the
  \<open>forward\<close> functions are \<open>const\<close>, the classes have no data member, and no function
  writes to a stream or a global.
\<close>

definition eval_call :: "strategy \<Rightarrow> Sex \<Rightarrow> double \<Rightarrow> double \<Rightarrow> double \<Rightarrow> double stmt" where
  "eval_call self sex H W g out = (call self sex H W g, out)"

text \<open>
  \<open>std::cout << label << self(sex, H, W, g) << std::endl\<close>, the operands of \<open><<\<close>
  evaluated from left to right (C++17): the label is inserted before the call is made.
\<close>

definition print_call :: "string \<Rightarrow> strategy \<Rightarrow> Sex \<Rightarrow> double \<Rightarrow> double \<Rightarrow> double \<Rightarrow> unit stmt" where
  "print_call label self sex H W g =
     then_stmt (put (Str label))
       (bind_stmt (eval_call self sex H W g) (\<lambda>v.
          then_stmt (put (Dbl v)) (put Endl)))"

text \<open>The statements of \<open>main\<close> after the declarations, lines 131 to 157.\<close>

definition main_body :: "double \<Rightarrow> double \<Rightarrow> double \<Rightarrow> int stmt" where
  "main_body H W g =
     then_stmt (print_call ''Widmark (F): '' Widmark Sex_F H W g)
    (then_stmt (print_call ''Widmark (M): '' Widmark Sex_M H W g)
    (then_stmt (print_call ''Watson (F): '' Watson Sex_F H W g)
    (then_stmt (print_call ''Watson (M): '' Watson Sex_M H W g)
    (then_stmt (print_call ''Forrest (F): '' Forrest Sex_F H W g)
    (then_stmt (print_call ''Forrest (M): '' Forrest Sex_M H W g)
    (then_stmt (print_call ''Seidl (F): '' Seidl Sex_F H W g)
    (then_stmt (print_call ''Seidl (M): '' Seidl Sex_M H W g)
    (then_stmt (try_catch (print_call ''Ulrich (F): '' Ulrich Sex_F H W g)
                  (\<lambda>e. then_stmt (put (Str ''Ulrich (F): ''))
                         (then_stmt (put (Str (what e))) (put Endl))))
    (then_stmt (print_call ''Ulrich (M): '' Ulrich Sex_M H W g)
    (then_stmt (print_call ''Average (F): '' Average Sex_F H W g)
    (then_stmt (print_call ''Average (M): '' Average Sex_M H W g)
       (\<lambda>out. (Inr 0, out)))))))))))))"

text \<open>The locals of \<open>main\<close>: \<open>double H = 170.0; double W = 70.0; double g = 18.0;\<close>.\<close>

definition main_H :: double where
  "main_H = dlit 170 1"

definition main_W :: double where
  "main_W = dlit 70 1"

definition main_g :: double where
  "main_g = dlit 18 1"

definition main :: "int stmt" where
  "main = main_body main_H main_W main_g"

section \<open>The formula table of the specification\<close>

text \<open>The two sex tags of the specification and the enumerators they stand for.\<close>

datatype sex_tag = Male | Female

fun tag_of :: "sex_tag \<Rightarrow> Sex" where
  "tag_of Male = Sex_M"
| "tag_of Female = Sex_F"

text \<open>
  The table of section 4.1, row by row, each expression evaluated in double precision
  with the usual precedence; \<open>H\<^sup>2\<close> is \<open>H * H\<close>. Ulrich has no female formula.
\<close>

fun formula_table :: "strategy \<Rightarrow> sex_tag \<Rightarrow> (double \<Rightarrow> double \<Rightarrow> double \<Rightarrow> double) option" where
  "formula_table Widmark Female = Some (\<lambda>H W g. dlit 55 100)"
| "formula_table Widmark Male = Some (\<lambda>H W g. dlit 68 100)"
| "formula_table Watson Female =
     Some (\<lambda>H W g. dlit 29218 100000 + (dlit 12666 1000 * H - dlit 24846 10000) / W)"
| "formula_table Watson Male =
     Some (\<lambda>H W g. dlit 39834 100000
        + (dlit 12725 1000 * H - dlit 11275 100000 * g + dlit 28993 10000) / W)"
| "formula_table Forrest Female =
     Some (\<lambda>H W g. dlit 8736 10000 - dlit 124 10000 * W / (H * H))"
| "formula_table Forrest Male =
     Some (\<lambda>H W g. dlit 10178 10000 - dlit 12127 1000000 * W / (H * H))"
| "formula_table Seidl Female =
     Some (\<lambda>H W g. dlit 31223 100000 - dlit 6446 1000000 * W + dlit 4466 10000 * H)"
| "formula_table Seidl Male =
     Some (\<lambda>H W g. dlit 31608 100000 - dlit 4821 1000000 * W + dlit 4632 10000 * H)"
| "formula_table Ulrich Female = None"
| "formula_table Ulrich Male =
     Some (\<lambda>H W g. dlit 715 1000 - dlit 462 100000 * W + dlit 22 100 * H)"
| "formula_table Average Female =
     Some (\<lambda>H W g. dlit 50766 100000 + dlit 11165 100000 * H
        - W * (dlit 1612 1000000 + dlit 31 10000 / (H * H))
        - (dlit 1 1 / W) * (dlit 62115 100000 - dlit 31665 10000 * H))"
| "formula_table Average Male =
     Some (\<lambda>H W g. dlit 62544 100000 + dlit 13664 100000 * H
        - W * (dlit 189 100000 + dlit 2425 1000000 / (H * H))
        + (dlit 1 1 / W) * (dlit 57986 100000 + dlit 2545 1000 * H - dlit 2255 100000 * g))"

section \<open>Predicates on results\<close>

text \<open>A call returns (does not throw) and its value is an infinity or a NaN.\<close>

fun returns_inf_or_nan :: "exn + double \<Rightarrow> bool" where
  "returns_inf_or_nan (Inr v) = is_inf_or_nan v"
| "returns_inf_or_nan (Inl e) = False"

text \<open>A call returns a finite binary64 number.\<close>

fun returns_finite :: "exn + double \<Rightarrow> bool" where
  "returns_finite (Inr v) = (is_finite v \<and> is_double v)"
| "returns_finite (Inl e) = False"

text \<open>A finite double of magnitude at most \<open>b\<close> units.\<close>

fun mag_le :: "double \<Rightarrow> nat \<Rightarrow> bool" where
  "mag_le (Fin s k) b = (k \<le> b)"
| "mag_le (Infty s) b = False"
| "mag_le NaN b = False"

text \<open>A positive double of magnitude at least \<open>b\<close> units, or plus infinity.\<close>

fun pos_ge :: "double \<Rightarrow> nat \<Rightarrow> bool" where
  "pos_ge (Fin s k) b = (\<not> s \<and> b \<le> k)"
| "pos_ge (Infty s) b = (\<not> s)"
| "pos_ge NaN b = False"

section \<open>Dispatch and errors\<close>

text \<open>
  C2. Ulrich's female branch throws for every input, from \<open>forward_F\<close> and from a call
  with \<open>Sex::F\<close>: the exception is \<open>std::invalid_argument("No estimator available")\<close>,
  the error the specification names FormulaUnavailable, and no value is returned. Its
  male branch returns \<open>0.715 - 0.00462 * W + 0.22 * H\<close>.
\<close>

theorem Ulrich_female_unavailable:
  "forward_F Ulrich H W g = Inl (Exn invalid_argument ''No estimator available'')
   \<and> call Ulrich Sex_F H W g = Inl (Exn invalid_argument ''No estimator available'')
   \<and> forward_M Ulrich H W g = Inr (dlit 715 1000 - dlit 462 100000 * W + dlit 22 100 * H)
   \<and> call Ulrich Sex_M H W g = Inr (dlit 715 1000 - dlit 462 100000 * W + dlit 22 100 * H)"
  by (simp add: call_def Sex_M_def Sex_F_def)

lemma forward_F_not_invalid_sex:
  "forward_F self H W g \<noteq> Inl (Exn invalid_argument ''Invalid sex'')"
  by (cases self) simp_all

lemma forward_M_returns: "\<exists>v. forward_M self H W g = Inr v"
  by (cases self) simp_all

text \<open>
  C3. For every strategy and input, a call fails with
  \<open>std::invalid_argument("Invalid sex")\<close>, the error the specification names InvalidSex,
  exactly when the sex tag is neither \<open>Sex::M\<close> nor \<open>Sex::F\<close>.
\<close>

theorem call_invalid_sex_iff:
  "(call self sex H W g = Inl (Exn invalid_argument ''Invalid sex''))
   = (sex \<noteq> Sex_M \<and> sex \<noteq> Sex_F)"
proof (cases "sex = Sex_F")
  case True
  then show ?thesis
    by (simp add: call_def forward_F_not_invalid_sex)
next
  case notF: False
  show ?thesis
  proof (cases "sex = Sex_M")
    case True
    obtain v where "forward_M self H W g = Inr v"
      using forward_M_returns by blast
    with True notF show ?thesis
      by (simp add: call_def)
  next
    case False
    with notF show ?thesis
      by (simp add: call_def)
  qed
qed

text \<open>
  C8. Widmark's male branch returns the double 0.68 and its female branch the double
  0.55 for every input, in particular at (1.70, 70.0, 18.0).
\<close>

theorem Widmark_constants:
  "call Widmark Sex_M H W g = Inr (dlit 68 100)
   \<and> call Widmark Sex_F H W g = Inr (dlit 55 100)
   \<and> call Widmark Sex_M (dlit 170 100) (dlit 70 1) (dlit 18 1) = Inr (dlit 68 100)
   \<and> call Widmark Sex_F (dlit 170 100) (dlit 70 1) (dlit 18 1) = Inr (dlit 55 100)"
  by (simp add: call_def Sex_M_def Sex_F_def)

section \<open>Rounding\<close>

lemma bitlen_le: "n < 2 ^ p \<Longrightarrow> bitlen n \<le> p"
proof (induction n arbitrary: p rule: bitlen.induct)
  case (1 n)
  show ?case
  proof (cases "n = 0")
    case True
    then show ?thesis by (simp add: bitlen.simps)
  next
    case False
    with "1.prems" obtain p' where p: "p = Suc p'"
      by (cases p) auto
    from "1.prems" p have "n div 2 < 2 ^ p'"
      by auto
    with "1.IH" False have "bitlen (n div 2) \<le> p'"
      by blast
    with False p show ?thesis
      by (subst bitlen.simps) simp
  qed
qed

lemma bitlen_lower: "0 < n \<Longrightarrow> 2 ^ (bitlen n - 1) \<le> n"
proof (induction n rule: bitlen.induct)
  case (1 n)
  show ?case
  proof (cases "n div 2 = 0")
    case True
    with "1.prems" have "bitlen n = 1"
      by (subst bitlen.simps) (simp add: bitlen.simps [of 0])
    with "1.prems" show ?thesis by simp
  next
    case False
    with "1.IH" "1.prems" have ih: "2 ^ (bitlen (n div 2) - 1) \<le> n div 2"
      by simp
    from False have pos: "0 < bitlen (n div 2)"
      by (subst bitlen.simps) simp
    from "1.prems" have "bitlen n = Suc (bitlen (n div 2))"
      by (subst bitlen.simps) simp
    with pos have "(2::nat) ^ (bitlen n - 1) = 2 * 2 ^ (bitlen (n div 2) - 1)"
      by (cases "bitlen (n div 2)") simp_all
    with ih show ?thesis by simp
  qed
qed

lemma rnd_even_upper:
  assumes "0 < d" and "n \<le> N * d"
  shows "rnd_even n d \<le> N"
proof (cases "n mod d = 0")
  case True
  from assms(2) have "n div d \<le> N * d div d"
    by (rule div_le_mono)
  with assms(1) have "n div d \<le> N"
    by simp
  with True assms show ?thesis
    by (simp add: rnd_even_def)
next
  case False
  have "n div d * d < n"
    using False assms(1) by (metis div_mult_mod_eq less_add_same_cancel1 mod_greater_zero_iff_not_dvd dvd_eq_mod_eq_0 neq0_conv)
  from this assms(2) have "n div d * d < N * d"
    by (rule less_le_trans)
  then have "n div d < N" by simp
  then show ?thesis
    by (simp add: rnd_even_def Let_def)
qed

lemma rnd_even_lower:
  assumes "0 < d" and "N * d \<le> n"
  shows "N \<le> rnd_even n d"
proof -
  from assms have "N \<le> n div d"
    by (simp add: less_eq_div_iff_mult_less_eq)
  then show ?thesis
    by (simp add: rnd_even_def Let_def)
qed

lemma rnd_even_exact: "0 < d \<Longrightarrow> rnd_even (a * d) d = a"
  by (simp add: rnd_even_def)

lemma round_mag_upper:
  assumes m: "m < 2 ^ 53" and d: "0 < d" and n: "n \<le> m * 2 ^ e * d"
  shows "round_mag n d \<le> m * 2 ^ e"
proof -
  define q where "q = n div d"
  define j where "j = bitlen q - 53"
  from n have "q \<le> m * 2 ^ e * d div d"
    unfolding q_def by (rule div_le_mono)
  with d have "q \<le> m * 2 ^ e"
    by simp
  also from m have "m * 2 ^ e < 2 ^ 53 * 2 ^ e"
    by simp
  finally have "q < 2 ^ (53 + e)"
    by (simp add: power_add)
  then have "bitlen q \<le> 53 + e"
    by (rule bitlen_le)
  then have "j \<le> e"
    by (simp add: j_def)
  then obtain i where e: "e = i + j"
    by (metis le_add_diff_inverse2)
  from n have "n \<le> m * 2 ^ i * (d * 2 ^ j)"
    by (simp add: e power_add mult_ac)
  with d have "rnd_even n (d * 2 ^ j) \<le> m * 2 ^ i"
    by (intro rnd_even_upper) simp_all
  then have "rnd_even n (d * 2 ^ j) * 2 ^ j \<le> m * 2 ^ i * 2 ^ j"
    by simp
  then show ?thesis
    by (simp add: round_mag_def Let_def q_def [symmetric] j_def [symmetric] e power_add mult_ac)
qed

lemma round_mag_lower:
  assumes m: "m < 2 ^ 53" and d: "0 < d" and n: "m * 2 ^ e * d \<le> n"
  shows "m * 2 ^ e \<le> round_mag n d"
proof -
  define q where "q = n div d"
  define j where "j = bitlen q - 53"
  have rm: "round_mag n d = rnd_even n (d * 2 ^ j) * 2 ^ j"
    by (simp add: round_mag_def Let_def q_def j_def)
  show ?thesis
  proof (cases "j \<le> e")
    case True
    then obtain i where e: "e = i + j"
      by (metis le_add_diff_inverse2)
    from n have "m * 2 ^ i * (d * 2 ^ j) \<le> n"
      by (simp add: e power_add mult_ac)
    with d have "m * 2 ^ i \<le> rnd_even n (d * 2 ^ j)"
      by (intro rnd_even_lower) simp_all
    then have "m * 2 ^ i * 2 ^ j \<le> rnd_even n (d * 2 ^ j) * 2 ^ j"
      by simp
    then show ?thesis
      by (simp add: rm e power_add mult_ac)
  next
    case False
    then have je: "e + 1 \<le> j"
      by simp
    then have bl: "bitlen q = j + 53"
      by (simp add: j_def)
    then have "0 < q"
      by (cases "q = 0") (simp_all add: bitlen.simps [of 0])
    then have "2 ^ (bitlen q - 1) \<le> q"
      by (rule bitlen_lower)
    then have "2 ^ (52 + j) \<le> q"
      by (simp add: bl add.commute)
    then have "2 ^ (52 + j) * d \<le> q * d"
      by simp
    also have "q * d \<le> n"
      by (simp add: q_def)
    finally have "2 ^ 52 * (d * 2 ^ j) \<le> n"
      by (simp add: power_add mult_ac)
    with d have "2 ^ 52 \<le> rnd_even n (d * 2 ^ j)"
      by (intro rnd_even_lower) simp_all
    then have big: "2 ^ 52 * 2 ^ j \<le> round_mag n d"
      by (simp add: rm)
    from m have "m * 2 ^ e \<le> 2 ^ 53 * 2 ^ e"
      by simp
    also have "(2::nat) ^ 53 * 2 ^ e = 2 ^ (53 + e)"
      by (simp only: power_add)
    also from je have "(2::nat) ^ (53 + e) \<le> 2 ^ (52 + j)"
      by (intro power_increasing) simp_all
    also have "(2::nat) ^ (52 + j) = 2 ^ 52 * 2 ^ j"
      by (simp only: power_add)
    also note big
    finally show ?thesis .
  qed
qed

lemma round_mag_exact: "m < 2 ^ 53 \<Longrightarrow> round_mag (m * 2 ^ e) 1 = m * 2 ^ e"
  using round_mag_upper [of m 1 "m * 2 ^ e" e] round_mag_lower [of m 1 e "m * 2 ^ e"]
  by simp

lemma bitlen_upper: "n < 2 ^ bitlen n"
proof (induction n rule: bitlen.induct)
  case (1 n)
  show ?case
  proof (cases "n = 0")
    case True
    then show ?thesis by simp
  next
    case False
    with "1.IH" have "n div 2 < 2 ^ bitlen (n div 2)"
      by simp
    then have "n < 2 * 2 ^ bitlen (n div 2)"
      by linarith
    with False show ?thesis
      by (subst bitlen.simps) simp
  qed
qed

lemma representable_mult:
  assumes "M \<le> 2 ^ 53"
  shows "representable (M * 2 ^ j)"
proof -
  have "\<exists>i. bitlen (M * 2 ^ j) - 53 \<le> i \<and> 2 ^ i dvd M * 2 ^ j"
  proof (cases "M = 2 ^ 53")
    case True
    have "(2::nat) ^ 53 * 2 ^ j < 2 ^ (54 + j)"
      by (simp add: power_add)
    then have "bitlen (2 ^ 53 * 2 ^ j) \<le> 54 + j"
      by (rule bitlen_le)
    then have "bitlen (M * 2 ^ j) - 53 \<le> j + 1"
      by (simp add: True)
    moreover have "(2::nat) ^ (j + 1) dvd M * 2 ^ j"
      by (simp add: True)
    ultimately show ?thesis by blast
  next
    case False
    with assms have "M < 2 ^ 53" by simp
    then have "M * 2 ^ j < 2 ^ 53 * 2 ^ j"
      by simp
    then have "M * 2 ^ j < 2 ^ (53 + j)"
      by (simp add: power_add)
    then have "bitlen (M * 2 ^ j) \<le> 53 + j"
      by (rule bitlen_le)
    then have "bitlen (M * 2 ^ j) - 53 \<le> j"
      by simp
    moreover have "(2::nat) ^ j dvd M * 2 ^ j"
      by simp
    ultimately show ?thesis by blast
  qed
  then obtain i where i: "bitlen (M * 2 ^ j) - 53 \<le> i" and dv: "2 ^ i dvd M * 2 ^ j"
    by blast
  from i have "(2::nat) ^ (bitlen (M * 2 ^ j) - 53) dvd 2 ^ i"
    by (rule le_imp_power_dvd)
  from this dv have "(2::nat) ^ (bitlen (M * 2 ^ j) - 53) dvd M * 2 ^ j"
    by (rule dvd_trans)
  then show ?thesis
    by (simp add: representable_def)
qed

lemma representable_round_mag:
  assumes d: "0 < d"
  shows "representable (round_mag n d)"
proof -
  define q where "q = n div d"
  define j where "j = bitlen q - 53"
  have "q < 2 ^ bitlen q"
    by (rule bitlen_upper)
  also have "(2::nat) ^ bitlen q \<le> 2 ^ (53 + j)"
    by (intro power_increasing) (simp_all add: j_def)
  finally have "q + 1 \<le> 2 ^ (53 + j)"
    by simp
  then have "(q + 1) * d \<le> 2 ^ (53 + j) * d"
    by (rule mult_le_mono1)
  moreover from d have "n < (q + 1) * d"
    unfolding q_def by (simp add: dividend_less_div_times)
  ultimately have "n \<le> 2 ^ 53 * (d * 2 ^ j)"
    by (simp add: power_add mult_ac)
  with d have "rnd_even n (d * 2 ^ j) \<le> 2 ^ 53"
    by (intro rnd_even_upper) simp_all
  then have "representable (rnd_even n (d * 2 ^ j) * 2 ^ j)"
    by (rule representable_mult)
  then show ?thesis
    by (simp add: round_mag_def Let_def q_def j_def)
qed

lemma is_double_mk_double: "0 < d \<Longrightarrow> is_double (mk_double s n d)"
  by (simp add: mk_double_def Let_def representable_round_mag)

lemma mk_double_mag_le:
  assumes "m < 2 ^ 53" and "m * 2 ^ e \<le> max_mag" and "0 < d" and "n \<le> m * 2 ^ e * d"
  shows "mag_le (mk_double s n d) (m * 2 ^ e)"
proof -
  from assms(1,3,4) have "round_mag n d \<le> m * 2 ^ e"
    by (rule round_mag_upper)
  with assms(2) show ?thesis
    by (simp add: mk_double_def Let_def)
qed

text \<open>
  Rounding is to nearest: the result is within half the spacing of the binade of the
  exact value.
\<close>

lemma rnd_even_nearest:
  assumes "0 < d"
  shows "2 * (rnd_even n d * d - n) \<le> d" and "2 * (n - rnd_even n d * d) \<le> d"
proof -
  define q where "q = n div d"
  define r where "r = n mod d"
  have n: "n = q * d + r"
    by (simp add: q_def r_def)
  from assms have r: "r < d"
    by (simp add: r_def)
  have up: "(q + 1) * d - n = d - r"
    using r by (simp add: n)
  have down: "n - (q + 1) * d = 0"
    using r by (simp add: n)
  have same: "q * d - n = 0" "n - q * d = r"
    by (simp_all add: n)
  have cases: "rnd_even n d = q \<and> 2 * r \<le> d \<or> rnd_even n d = q + 1 \<and> d \<le> 2 * r"
    by (auto simp add: rnd_even_def Let_def q_def r_def)
  then show "2 * (rnd_even n d * d - n) \<le> d"
    using up same r by auto
  from cases show "2 * (n - rnd_even n d * d) \<le> d"
    using down same by auto
qed

lemma round_mag_nearest:
  assumes "0 < d"
  shows "2 * (round_mag n d * d - n) \<le> d * 2 ^ (bitlen (n div d) - 53)"
    and "2 * (n - round_mag n d * d) \<le> d * 2 ^ (bitlen (n div d) - 53)"
proof -
  define j where "j = bitlen (n div d) - 53"
  from assms have "0 < d * 2 ^ j"
    by simp
  then have "2 * (rnd_even n (d * 2 ^ j) * (d * 2 ^ j) - n) \<le> d * 2 ^ j"
    and "2 * (n - rnd_even n (d * 2 ^ j) * (d * 2 ^ j)) \<le> d * 2 ^ j"
    by (rule rnd_even_nearest)+
  moreover have "round_mag n d * d = rnd_even n (d * 2 ^ j) * (d * 2 ^ j)"
    by (simp add: round_mag_def Let_def j_def mult_ac)
  ultimately show "2 * (round_mag n d * d - n) \<le> d * 2 ^ (bitlen (n div d) - 53)"
    and "2 * (n - round_mag n d * d) \<le> d * 2 ^ (bitlen (n div d) - 53)"
    unfolding j_def by (simp_all only:)
qed

section \<open>The operations on doubles\<close>

lemma one_mag_pos: "0 < one_mag"
  by (simp add: one_mag_def)

lemma pow_split: "c = a + b \<Longrightarrow> (2::nat) ^ c = 2 ^ a * 2 ^ b"
  by (simp only: power_add)

lemma max_mag_upper: "max_mag \<le> 2 ^ 2098"
proof -
  have "max_mag \<le> 2 ^ 53 * 2 ^ 2045"
    unfolding max_mag_def by (rule mult_le_mono1) simp
  also have "(2::nat) ^ 53 * 2 ^ 2045 = 2 ^ 2098"
    by (rule pow_split [symmetric]) simp
  finally show ?thesis .
qed

lemma pow_le_max_mag:
  assumes "c \<le> 2097"
  shows "2 ^ c \<le> max_mag"
proof -
  from assms have "(2::nat) ^ c \<le> 2 ^ 2097"
    by (intro power_increasing) simp_all
  also have "(2::nat) ^ 2097 = 2 ^ 52 * 2 ^ 2045"
    by (rule pow_split) simp
  also have "(2::nat) ^ 52 * 2 ^ 2045 \<le> max_mag"
    unfolding max_mag_def by (rule mult_le_mono1) simp
  finally show ?thesis .
qed

lemma representable_0: "representable 0"
  by (simp add: representable_def)

lemma round_mag_0: "0 < d \<Longrightarrow> round_mag 0 d = 0"
  using round_mag_upper [of 0 d 0 0] by simp

lemma mk_double_0: "0 < d \<Longrightarrow> mk_double s 0 d = Fin s 0"
  by (simp add: mk_double_def round_mag_0)

text \<open>Every operation returns a binary64 number, an infinity or a NaN.\<close>

lemma is_double_dlit: "0 < d \<Longrightarrow> is_double (dlit n d)"
  by (simp add: dlit_def is_double_mk_double)

lemma is_double_dneg: "is_double (dneg x) = is_double x"
  by (cases x) simp_all

lemma is_double_dadd: "is_double (dadd x y)"
  by (cases x; cases y) (simp_all add: is_double_mk_double representable_0)

lemma is_double_dmul: "is_double (dmul x y)"
  by (cases x; cases y) (simp_all add: is_double_mk_double one_mag_pos)

lemma is_double_ddiv: "is_double (ddiv x y)"
  by (cases x; cases y) (simp_all add: is_double_mk_double representable_0)

lemma is_double_plus: "is_double (x + y)"
  by (simp add: plus_double_def is_double_dadd)

lemma is_double_minus: "is_double (x - y)"
  by (simp add: minus_double_def is_double_dadd)

lemma is_double_times: "is_double (x * y)"
  by (simp add: times_double_def is_double_dmul)

lemma is_double_divide: "is_double (x / y)"
  by (simp add: divide_double_def is_double_ddiv)

text \<open>Infinities and NaNs propagate.\<close>

lemma div_zero_inf_or_nan: "is_inf_or_nan (x / Fin z 0)"
  by (cases x) (simp_all add: divide_double_def)

lemma plus_inf_or_nan_l: "is_inf_or_nan x \<Longrightarrow> is_inf_or_nan (x + y)"
  by (cases x; cases y) (simp_all add: plus_double_def)

lemma plus_inf_or_nan_r: "is_inf_or_nan y \<Longrightarrow> is_inf_or_nan (x + y)"
  by (cases x; cases y) (simp_all add: plus_double_def)

lemma minus_inf_or_nan_l: "is_inf_or_nan x \<Longrightarrow> is_inf_or_nan (x - y)"
  by (cases x; cases y) (simp_all add: minus_double_def)

lemma minus_inf_or_nan_r: "is_inf_or_nan y \<Longrightarrow> is_inf_or_nan (x - y)"
  by (cases x; cases y) (simp_all add: minus_double_def)

lemma times_inf_or_nan_l: "is_inf_or_nan x \<Longrightarrow> is_inf_or_nan (x * y)"
  by (cases x; cases y) (simp_all add: times_double_def)

lemma times_inf_or_nan_r: "is_inf_or_nan y \<Longrightarrow> is_inf_or_nan (x * y)"
  by (cases x; cases y) (simp_all add: times_double_def)

lemma times_zero_zero: "Fin a 0 * Fin b 0 = Fin (a \<noteq> b) 0"
  by (simp add: times_double_def mk_double_0 one_mag_pos)

text \<open>Bounds on magnitudes.\<close>

lemma mag_le_mono: "mag_le x a \<Longrightarrow> a \<le> b \<Longrightarrow> mag_le x b"
  by (cases x) simp_all

lemma mag_le_finite: "mag_le x a \<Longrightarrow> is_finite x"
  by (cases x) simp_all

lemma mag_le_input: "is_double x \<Longrightarrow> is_finite x \<Longrightarrow> mag_le x (2 ^ 2098)"
  using max_mag_upper by (cases x) simp_all

lemma dlit_mag_le:
  assumes "m < 2 ^ 53" and "m * 2 ^ e \<le> max_mag" and "0 < d"
    and "n * one_mag \<le> m * 2 ^ e * d"
  shows "mag_le (dlit n d) (m * 2 ^ e)"
  unfolding dlit_def using assms by (rule mk_double_mag_le)

lemma plus_mag_le:
  assumes x: "mag_le x a" and y: "mag_le y b" and ab: "a + b \<le> m * 2 ^ e"
    and m: "m < 2 ^ 53" and mx: "m * 2 ^ e \<le> max_mag"
  shows "mag_le (x + y) (m * 2 ^ e)"
proof -
  from x obtain s k where xe: "x = Fin s k" and k: "k \<le> a"
    by (cases x) simp_all
  from y obtain t l where ye: "y = Fin t l" and l: "l \<le> b"
    by (cases y) simp_all
  have bound: "mag_le (mk_double u n (Suc 0)) (m * 2 ^ e)" if "n \<le> k + l" for u n
  proof -
    from that k l ab have "n \<le> m * 2 ^ e * 1"
      by simp
    with m mx show ?thesis
      by (intro mk_double_mag_le) simp_all
  qed
  show ?thesis
    by (simp add: xe ye plus_double_def bound)
qed

lemma mag_le_dneg: "mag_le (dneg x) a = mag_le x a"
  by (cases x) simp_all

lemma minus_mag_le:
  assumes "mag_le x a" and "mag_le y b" and "a + b \<le> m * 2 ^ e"
    and "m < 2 ^ 53" and "m * 2 ^ e \<le> max_mag"
  shows "mag_le (x - y) (m * 2 ^ e)"
proof -
  from assms(2) have "mag_le (dneg y) b"
    by (simp add: mag_le_dneg)
  with assms(1) have "mag_le (x + dneg y) (m * 2 ^ e)"
    using assms(3-5) by (rule plus_mag_le)
  then show ?thesis
    by (simp add: minus_double_def plus_double_def)
qed

lemma times_mag_le:
  assumes x: "mag_le x a" and y: "mag_le y b" and ab: "a * b \<le> m * 2 ^ e * one_mag"
    and m: "m < 2 ^ 53" and mx: "m * 2 ^ e \<le> max_mag"
  shows "mag_le (x * y) (m * 2 ^ e)"
proof -
  from x obtain s k where xe: "x = Fin s k" and k: "k \<le> a"
    by (cases x) simp_all
  from y obtain t l where ye: "y = Fin t l" and l: "l \<le> b"
    by (cases y) simp_all
  from k l have "k * l \<le> a * b"
    by (rule mult_le_mono)
  with ab have "k * l \<le> m * 2 ^ e * one_mag"
    by simp
  with m mx one_mag_pos have "mag_le (mk_double (s \<noteq> t) (k * l) one_mag) (m * 2 ^ e)"
    by (intro mk_double_mag_le)
  then show ?thesis
    by (simp add: xe ye times_double_def)
qed

text \<open>The same bounds with powers of two.\<close>

lemma dlit_pow:
  assumes d: "0 < d" and n: "n * 2 ^ i \<le> d" and i: "i \<le> 1074"
  shows "mag_le (dlit n d) (2 ^ (1074 - i))"
proof -
  from i have "one_mag = 2 ^ i * 2 ^ (1074 - i)"
    unfolding one_mag_def by (intro pow_split) simp
  then have "n * one_mag = n * 2 ^ i * 2 ^ (1074 - i)"
    by simp
  also from n have "\<dots> \<le> d * 2 ^ (1074 - i)"
    by (rule mult_le_mono1)
  finally have "n * one_mag \<le> 1 * 2 ^ (1074 - i) * d"
    by (simp add: mult.commute)
  moreover have "1 * 2 ^ (1074 - i) \<le> max_mag"
    using pow_le_max_mag [of "1074 - i"] by simp
  ultimately have "mag_le (dlit n d) (1 * 2 ^ (1074 - i))"
    using d by (intro dlit_mag_le) simp_all
  then show ?thesis
    by simp
qed

lemma times_pow:
  assumes x: "mag_le x (2 ^ a)" and y: "mag_le y (2 ^ b)"
    and ab: "a + b \<le> 1074 + c" and c: "c \<le> 2097"
  shows "mag_le (x * y) (2 ^ c)"
proof -
  have "(2::nat) ^ a * 2 ^ b = 2 ^ (a + b)"
    by (simp only: power_add)
  also from ab have "(2::nat) ^ (a + b) \<le> 2 ^ (c + 1074)"
    by (intro power_increasing) simp_all
  also have "(2::nat) ^ (c + 1074) = 2 ^ c * one_mag"
    by (simp only: power_add one_mag_def)
  finally have "2 ^ a * 2 ^ b \<le> 1 * 2 ^ c * one_mag"
    by simp
  moreover from c have "1 * 2 ^ c \<le> max_mag"
    using pow_le_max_mag [of c] by simp
  ultimately have "mag_le (x * y) (1 * 2 ^ c)"
    using x y by (intro times_mag_le [where a = "2 ^ a" and b = "2 ^ b"]) simp_all
  then show ?thesis
    by simp
qed

lemma pow_sum_le:
  assumes "a < c" and "b < c"
  shows "(2::nat) ^ a + 2 ^ b \<le> 2 ^ c"
proof -
  from assms obtain c' where c: "c = Suc c'"
    by (cases c) simp_all
  from assms c have "(2::nat) ^ a \<le> 2 ^ c'" and "(2::nat) ^ b \<le> 2 ^ c'"
    by (simp_all add: power_increasing)
  then have "(2::nat) ^ a + 2 ^ b \<le> 2 ^ c' + 2 ^ c'"
    by (rule add_mono)
  then show ?thesis
    by (simp add: c)
qed

lemma minus_pow:
  assumes x: "mag_le x (2 ^ a)" and y: "mag_le y (2 ^ b)"
    and "a < c" and "b < c" and c: "c \<le> 2097"
  shows "mag_le (x - y) (2 ^ c)"
proof -
  from assms(3,4) have "(2::nat) ^ a + 2 ^ b \<le> 1 * 2 ^ c"
    using pow_sum_le [of a c b] by simp
  moreover from c have "1 * 2 ^ c \<le> max_mag"
    using pow_le_max_mag [of c] by simp
  ultimately have "mag_le (x - y) (1 * 2 ^ c)"
    using x y by (intro minus_mag_le [where a = "2 ^ a" and b = "2 ^ b"]) simp_all
  then show ?thesis
    by simp
qed

lemma plus_top:
  assumes x: "mag_le x (2 ^ 2092)" and y: "mag_le y (2 ^ 2097)"
  shows "mag_le (x + y) max_mag"
proof -
  have "(2::nat) ^ 2092 + 2 ^ 2097 = 2 ^ 47 * 2 ^ 2045 + 2 ^ 52 * 2 ^ 2045"
    by (simp only: pow_split [of 2092 47 2045] pow_split [of 2097 52 2045])
  also have "\<dots> = (2 ^ 47 + 2 ^ 52) * 2 ^ 2045"
    by (simp only: add_mult_distrib)
  also have "\<dots> \<le> (2 ^ 53 - 1) * 2 ^ 2045"
    by (rule mult_le_mono1) simp
  finally have "(2::nat) ^ 2092 + 2 ^ 2097 \<le> (2 ^ 53 - 1) * 2 ^ 2045" .
  with x y have "mag_le (x + y) ((2 ^ 53 - 1) * 2 ^ 2045)"
    by (intro plus_mag_le [where a = "2 ^ 2092" and b = "2 ^ 2097"])
       (simp_all add: max_mag_def)
  then show ?thesis
    by (simp only: max_mag_def)
qed

lemma dlit_exact:
  assumes "m < 2 ^ 53" and "m * one_mag \<le> max_mag"
  shows "dlit m 1 = Fin False (m * one_mag)"
proof -
  from assms(1) have "round_mag (m * 2 ^ 1074) 1 = m * 2 ^ 1074"
    by (rule round_mag_exact)
  with assms(2) show ?thesis
    by (simp add: dlit_def mk_double_def one_mag_def)
qed

lemma small_int_le_max_mag:
  assumes "m \<le> 2 ^ 20"
  shows "m * one_mag \<le> max_mag"
proof -
  from assms have "m * one_mag \<le> 2 ^ 20 * one_mag"
    by (rule mult_le_mono1)
  also have "2 ^ 20 * one_mag = 2 ^ 1094"
    unfolding one_mag_def by (rule pow_split [symmetric]) simp
  also have "(2::nat) ^ 1094 \<le> max_mag"
    by (rule pow_le_max_mag) simp
  finally show ?thesis .
qed

lemma dlit_small_int: "m \<le> 2 ^ 20 \<Longrightarrow> dlit m 1 = Fin False (m * one_mag)"
  by (rule dlit_exact) (simp_all add: small_int_le_max_mag)

lemma dlit_0: "dlit 0 1 = Fin False 0"
  using dlit_small_int [of 0] by simp

text \<open>Lower bounds on positive results.\<close>

lemma mk_double_pos_ge:
  assumes "m < 2 ^ 53" and "0 < d" and "m * 2 ^ e * d \<le> n"
  shows "pos_ge (mk_double False n d) (m * 2 ^ e)"
proof -
  from assms have "m * 2 ^ e \<le> round_mag n d"
    by (rule round_mag_lower)
  then show ?thesis
    by (simp add: mk_double_def Let_def)
qed

lemma mag_le_pos_ge_differ: "mag_le x a \<Longrightarrow> pos_ge y b \<Longrightarrow> a < b \<Longrightarrow> x \<noteq> y"
  by (cases x; cases y) auto

lemma plus_pos_ge:
  assumes x: "mag_le x a" and y: "pos_ge y b" and ab: "m * 2 ^ e + a \<le> b"
    and m: "m < 2 ^ 53"
  shows "pos_ge (x + y) (m * 2 ^ e)"
proof -
  from x obtain s k where xe: "x = Fin s k" and k: "k \<le> a"
    by (cases x) simp_all
  show ?thesis
  proof (cases y)
    case (Fin t l)
    with y have t: "\<not> t" and l: "b \<le> l"
      by simp_all
    have low: "pos_ge (mk_double False n (Suc 0)) (m * 2 ^ e)" if "l - k \<le> n" for n
    proof -
      from that k l ab have "m * 2 ^ e * Suc 0 \<le> n"
        by simp
      with m show ?thesis
        by (intro mk_double_pos_ge) simp_all
    qed
    from k l ab have kl: "k \<le> l" and gap: "m * 2 ^ e \<le> l - k"
      by simp_all
    show ?thesis
    proof (cases s)
      case False
      with t have "x + y = mk_double False (k + l) (Suc 0)"
        by (simp add: xe Fin plus_double_def)
      then show ?thesis
        by (simp add: low)
    next
      case True
      show ?thesis
      proof (cases "k = l")
        case same: True
        with True t have "x + y = Fin False 0"
          by (simp add: xe Fin plus_double_def)
        with gap same show ?thesis
          by simp
      next
        case False
        with True t kl have "x + y = mk_double False (l - k) (Suc 0)"
          by (simp add: xe Fin plus_double_def)
        then show ?thesis
          by (simp add: low)
      qed
    qed
  next
    case (Infty t)
    with y show ?thesis
      by (simp add: xe plus_double_def)
  next
    case NaN
    with y show ?thesis
      by simp
  qed
qed

lemma times_pos_ge:
  assumes x: "pos_ge x a" and y: "pos_ge y b" and ab: "m * 2 ^ e * one_mag \<le> a * b"
    and m: "m < 2 ^ 53" and pos: "0 < a" "0 < b"
  shows "pos_ge (x * y) (m * 2 ^ e)"
proof -
  have fin: "pos_ge (mk_double False (k * l) one_mag) (m * 2 ^ e)" if "a \<le> k" and "b \<le> l" for k l
  proof -
    from that have "a * b \<le> k * l"
      by (rule mult_le_mono)
    with ab have "m * 2 ^ e * one_mag \<le> k * l"
      by simp
    with m one_mag_pos show ?thesis
      by (intro mk_double_pos_ge)
  qed
  from x y pos show ?thesis
    by (cases x; cases y) (auto simp add: times_double_def fin)
qed

lemma times_uminus_r: "x * (- y) = - (x * y)" for x y :: double
  by (cases x; cases y) (auto simp add: times_double_def uminus_double_def mk_double_def Let_def)

lemma minus_uminus: "x - (- y) = x + y" for x y :: double
  by (cases y) (simp_all add: minus_double_def uminus_double_def plus_double_def)

lemma divide_one_pos_ge:
  assumes x: "pos_ge x (m * 2 ^ e)" and m: "m < 2 ^ 53"
  shows "pos_ge (x / Fin False one_mag) (m * 2 ^ e)"
proof (cases x)
  case (Fin s k)
  with x have s: "\<not> s" and k: "m * 2 ^ e \<le> k"
    by simp_all
  from k have "m * 2 ^ e * one_mag \<le> k * one_mag"
    by (rule mult_le_mono1)
  with m one_mag_pos have "pos_ge (mk_double False (k * one_mag) one_mag) (m * 2 ^ e)"
    by (intro mk_double_pos_ge)
  with s one_mag_pos show ?thesis
    by (simp add: Fin divide_double_def)
next
  case (Infty s)
  with x show ?thesis
    by (simp add: divide_double_def)
next
  case NaN
  with x show ?thesis
    by simp
qed

lemma divide_one_mag_le:
  assumes x: "mag_le x (m * 2 ^ e)" and m: "m < 2 ^ 53" and mx: "m * 2 ^ e \<le> max_mag"
  shows "mag_le (x / Fin False one_mag) (m * 2 ^ e)"
proof -
  from x obtain s k where xe: "x = Fin s k" and k: "k \<le> m * 2 ^ e"
    by (cases x) simp_all
  from k have "k * one_mag \<le> m * 2 ^ e * one_mag"
    by (rule mult_le_mono1)
  with m mx one_mag_pos have "mag_le (mk_double s (k * one_mag) one_mag) (m * 2 ^ e)"
    by (intro mk_double_mag_le)
  with one_mag_pos show ?thesis
    by (simp add: xe divide_double_def)
qed

lemma plus_commute: "x + y = y + x" for x y :: double
  by (cases x; cases y) (auto simp add: plus_double_def add.commute)

lemma int_le_max_mag: "m \<le> 2 ^ 20 \<Longrightarrow> m * 2 ^ 1074 \<le> max_mag"
  using small_int_le_max_mag [of m] by (simp only: one_mag_def)

lemma int_lt_53: "m \<le> 2 ^ 20 \<Longrightarrow> m < 2 ^ 53" for m :: nat
  by simp

lemma times_zero_r: "mag_le x a \<Longrightarrow> mag_le (x * Fin s 0) (0 * one_mag)"
  by (cases x) (simp_all add: times_double_def mk_double_0 one_mag_pos)

lemma dlit_le_int:
  assumes d: "0 < d" and n: "n \<le> m * d" and m: "m \<le> 2 ^ 20"
  shows "mag_le (dlit n d) (m * one_mag)"
proof -
  from n have "n * one_mag \<le> m * d * one_mag"
    by (rule mult_le_mono1)
  then have "n * one_mag \<le> m * 2 ^ 1074 * d"
    by (simp only: one_mag_def mult_ac)
  with int_lt_53 [OF m] int_le_max_mag [OF m] d have "mag_le (dlit n d) (m * 2 ^ 1074)"
    by (intro dlit_mag_le)
  then show ?thesis
    by (simp only: one_mag_def)
qed

lemma plus_mag_le_int:
  assumes x: "mag_le x (a * one_mag)" and y: "mag_le y (b * one_mag)"
    and ab: "a + b \<le> m" and m: "m \<le> 2 ^ 20"
  shows "mag_le (x + y) (m * one_mag)"
proof -
  from ab have "(a + b) * one_mag \<le> m * one_mag"
    by (rule mult_le_mono1)
  then have "a * one_mag + b * one_mag \<le> m * 2 ^ 1074"
    by (simp only: add_mult_distrib one_mag_def)
  with x y have "mag_le (x + y) (m * 2 ^ 1074)"
    using int_lt_53 [OF m] int_le_max_mag [OF m] by (rule plus_mag_le)
  then show ?thesis
    by (simp only: one_mag_def)
qed

lemma minus_mag_le_int:
  assumes x: "mag_le x (a * one_mag)" and y: "mag_le y (b * one_mag)"
    and ab: "a + b \<le> m" and m: "m \<le> 2 ^ 20"
  shows "mag_le (x - y) (m * one_mag)"
proof -
  from y have "mag_le (dneg y) (b * one_mag)"
    by (simp only: mag_le_dneg)
  with x have "mag_le (x + dneg y) (m * one_mag)"
    using ab m by (rule plus_mag_le_int)
  then show ?thesis
    by (simp only: minus_double_def plus_double_def)
qed

lemma divide_one_mag_le_int:
  assumes x: "mag_le x (m * one_mag)" and m: "m \<le> 2 ^ 20"
  shows "mag_le (x / Fin False one_mag) (m * one_mag)"
proof -
  from x have "mag_le x (m * 2 ^ 1074)"
    by (simp only: one_mag_def)
  then have "mag_le (x / Fin False one_mag) (m * 2 ^ 1074)"
    using int_lt_53 [OF m] int_le_max_mag [OF m] by (rule divide_one_mag_le)
  then show ?thesis
    by (simp only: one_mag_def [symmetric])
qed

lemma dlit_pos_ge:
  assumes d: "0 < d" and n: "d \<le> n * 2 ^ i" and i: "i \<le> 1074"
  shows "pos_ge (dlit n d) (2 ^ (1074 - i))"
proof -
  from i have split: "one_mag = 2 ^ i * 2 ^ (1074 - i)"
    unfolding one_mag_def by (intro pow_split) simp
  from n have "d * 2 ^ (1074 - i) \<le> n * 2 ^ i * 2 ^ (1074 - i)"
    by (rule mult_le_mono1)
  also have "\<dots> = n * one_mag"
    by (simp only: split mult.assoc)
  finally have "1 * 2 ^ (1074 - i) * d \<le> n * one_mag"
    by (simp only: mult_1 mult.commute)
  with d have "pos_ge (mk_double False (n * one_mag) d) (1 * 2 ^ (1074 - i))"
    by (intro mk_double_pos_ge) simp_all
  then show ?thesis
    by (simp only: dlit_def mult_1)
qed

lemma times_pos_ge_int:
  assumes x: "pos_ge x (2 ^ (1074 - i))" and y: "pos_ge y (b * one_mag)"
    and mb: "m * 2 ^ i \<le> b" and m: "m \<le> 2 ^ 20" and i: "i \<le> 1074" and b: "0 < b"
  shows "pos_ge (x * y) (m * one_mag)"
proof -
  from i have split: "one_mag = 2 ^ i * 2 ^ (1074 - i)"
    unfolding one_mag_def by (intro pow_split) simp
  have "m * one_mag = m * 2 ^ i * 2 ^ (1074 - i)"
    by (simp only: split mult.assoc)
  also from mb have "\<dots> \<le> b * 2 ^ (1074 - i)"
    by (rule mult_le_mono1)
  finally have "m * one_mag * one_mag \<le> b * 2 ^ (1074 - i) * one_mag"
    by (rule mult_le_mono1)
  then have "m * 2 ^ 1074 * one_mag \<le> 2 ^ (1074 - i) * (b * one_mag)"
    by (simp only: mult_ac one_mag_def)
  moreover from b one_mag_pos have "0 < b * one_mag"
    by simp
  moreover have "(0::nat) < 2 ^ (1074 - i)"
    by (rule zero_less_power) simp
  ultimately have "pos_ge (x * y) (m * 2 ^ 1074)"
    using x y int_lt_53 [OF m] by (intro times_pos_ge [where a = "2 ^ (1074 - i)" and b = "b * one_mag"])
  then show ?thesis
    by (simp only: one_mag_def)
qed

lemma plus_pos_ge_int:
  assumes x: "mag_le x (a * one_mag)" and y: "pos_ge y (b * one_mag)"
    and ab: "m + a \<le> b" and m: "m \<le> 2 ^ 20"
  shows "pos_ge (x + y) (m * one_mag)"
proof -
  from ab have "(m + a) * one_mag \<le> b * one_mag"
    by (rule mult_le_mono1)
  then have "m * 2 ^ 1074 + a * one_mag \<le> b * one_mag"
    by (simp only: add_mult_distrib one_mag_def)
  with x y have "pos_ge (x + y) (m * 2 ^ 1074)"
    using int_lt_53 [OF m] by (rule plus_pos_ge)
  then show ?thesis
    by (simp only: one_mag_def)
qed

lemma divide_one_pos_ge_int:
  assumes x: "pos_ge x (m * one_mag)" and m: "m \<le> 2 ^ 20"
  shows "pos_ge (x / Fin False one_mag) (m * one_mag)"
proof -
  from x have "pos_ge x (m * 2 ^ 1074)"
    by (simp only: one_mag_def)
  then have "pos_ge (x / Fin False one_mag) (m * 2 ^ 1074)"
    using int_lt_53 [OF m] by (rule divide_one_pos_ge)
  then show ?thesis
    by (simp only: one_mag_def [symmetric])
qed

lemma differ_int:
  assumes "mag_le x (a * one_mag)" and "pos_ge y (b * one_mag)" and "a < b"
  shows "x \<noteq> y"
proof -
  from assms(3) one_mag_pos have "a * one_mag < b * one_mag"
    by simp
  with assms(1,2) show ?thesis
    by (rule mag_le_pos_ge_differ)
qed

lemma dlit_one: "dlit 1 1 = Fin False one_mag"
  using dlit_small_int [of 1] by simp

lemma dlit_int_pos_ge: "m \<le> 2 ^ 20 \<Longrightarrow> pos_ge (dlit m 1) (m * one_mag)"
  by (simp add: dlit_small_int del: One_nat_def)

lemma times_commute: "x * y = y * x" for x y :: double
proof -
  have "mk_double (s \<noteq> t) (a * b) d = mk_double (t \<noteq> s) (b * a) d"
    for s t :: bool and a b d :: nat
    by (cases s; cases t) (simp_all add: mult.commute)
  then show ?thesis
    by (cases x; cases y) (auto simp add: times_double_def)
qed

lemma times_one_eq_divide_one: "x * Fin False one_mag = x / Fin False one_mag"
  using one_mag_pos by (cases x) (simp_all add: times_double_def divide_double_def)

lemma one_div_one: "Fin False one_mag / Fin False one_mag = Fin False one_mag"
proof -
  have "round_mag (one_mag * one_mag) one_mag \<le> 1 * 2 ^ 1074"
    by (rule round_mag_upper) (simp_all add: one_mag_def)
  moreover have "1 * 2 ^ 1074 \<le> round_mag (one_mag * one_mag) one_mag"
    by (rule round_mag_lower) (simp_all add: one_mag_def)
  ultimately have "round_mag (one_mag * one_mag) one_mag = one_mag"
    by (simp only: one_mag_def mult_1)
  moreover have "one_mag \<le> max_mag"
    using small_int_le_max_mag [of 1] by simp
  ultimately show ?thesis
    using one_mag_pos by (simp add: divide_double_def mk_double_def)
qed

lemma dlit_ge_int:
  assumes d: "0 < d" and n: "m * d \<le> n" and m: "m \<le> 2 ^ 20"
  shows "pos_ge (dlit n d) (m * one_mag)"
proof -
  from n have "m * d * one_mag \<le> n * one_mag"
    by (rule mult_le_mono1)
  then have "m * 2 ^ 1074 * d \<le> n * one_mag"
    by (simp only: one_mag_def mult_ac)
  with int_lt_53 [OF m] d have "pos_ge (mk_double False (n * one_mag) d) (m * 2 ^ 1074)"
    by (intro mk_double_pos_ge)
  then show ?thesis
    by (simp only: one_mag_def dlit_def)
qed

lemma times_pos_ge_ints:
  assumes x: "pos_ge x (a * one_mag)" and y: "pos_ge y (b * one_mag)"
    and mab: "m \<le> a * b" and m: "m \<le> 2 ^ 20" and a: "0 < a" and b: "0 < b"
  shows "pos_ge (x * y) (m * one_mag)"
proof -
  from mab have "m * (one_mag * one_mag) \<le> a * b * (one_mag * one_mag)"
    by (rule mult_le_mono1)
  then have "m * 2 ^ 1074 * one_mag \<le> a * one_mag * (b * one_mag)"
    by (simp only: mult_ac one_mag_def)
  moreover from a b one_mag_pos have "0 < a * one_mag" and "0 < b * one_mag"
    by simp_all
  ultimately have "pos_ge (x * y) (m * 2 ^ 1074)"
    using x y int_lt_53 [OF m]
    by (intro times_pos_ge [where a = "a * one_mag" and b = "b * one_mag"])
  then show ?thesis
    by (simp only: one_mag_def)
qed

lemma pos_divide_zero:
  assumes "pos_ge x (m * one_mag)" and "0 < m"
  shows "x / Fin False 0 = Infty False"
proof -
  from assms(2) one_mag_pos have pos: "0 < m * one_mag"
    by simp
  show ?thesis
  proof (cases x)
    case (Fin s k)
    with assms(1) have s: "\<not> s" and k: "m * one_mag \<le> k"
      by simp_all
    from pos k have "0 < k"
      by (rule less_le_trans)
    with s show ?thesis
      by (simp add: Fin divide_double_def)
  next
    case (Infty s)
    with assms(1) show ?thesis
      by (simp add: divide_double_def)
  next
    case NaN
    with assms(1) show ?thesis
      by simp
  qed
qed

lemma mag_le_plus_infinity: "mag_le x a \<Longrightarrow> x + Infty s = Infty s"
  by (cases x) (simp_all add: plus_double_def)

section \<open>The formulas\<close>

lemma Seidl_shape:
  assumes c1: "mag_le c1 (2 ^ 1074)" and c2: "mag_le c2 (2 ^ 1067)" and c3: "mag_le c3 (2 ^ 1073)"
    and H: "mag_le H (2 ^ 2098)" and W: "mag_le W (2 ^ 2098)"
  shows "mag_le (c1 - c2 * W + c3 * H) max_mag"
proof -
  from c2 W have "mag_le (c2 * W) (2 ^ 2091)"
    by (rule times_pow) simp_all
  with c1 have "mag_le (c1 - c2 * W) (2 ^ 2092)"
    by (rule minus_pow) simp_all
  moreover from c3 H have "mag_le (c3 * H) (2 ^ 2097)"
    by (rule times_pow) simp_all
  ultimately show ?thesis
    by (rule plus_top)
qed

lemma Seidl_F_finite:
  assumes "is_double H" and "is_finite H" and "is_double W" and "is_finite W"
  shows "returns_finite (forward_F Seidl H W g)"
proof -
  have "mag_le (dlit 31223 100000) (2 ^ (1074 - 0))"
    by (rule dlit_pow) simp_all
  moreover have "mag_le (dlit 6446 1000000) (2 ^ (1074 - 7))"
    by (rule dlit_pow) simp_all
  moreover have "mag_le (dlit 4466 10000) (2 ^ (1074 - 1))"
    by (rule dlit_pow) simp_all
  ultimately have "mag_le (dlit 31223 100000 - dlit 6446 1000000 * W + dlit 4466 10000 * H) max_mag"
    using assms by (intro Seidl_shape mag_le_input) simp_all
  then show ?thesis
    by (simp add: mag_le_finite is_double_plus)
qed

lemma Seidl_M_finite:
  assumes "is_double H" and "is_finite H" and "is_double W" and "is_finite W"
  shows "returns_finite (forward_M Seidl H W g)"
proof -
  have "mag_le (dlit 31608 100000) (2 ^ (1074 - 0))"
    by (rule dlit_pow) simp_all
  moreover have "mag_le (dlit 4821 1000000) (2 ^ (1074 - 7))"
    by (rule dlit_pow) simp_all
  moreover have "mag_le (dlit 4632 10000) (2 ^ (1074 - 1))"
    by (rule dlit_pow) simp_all
  ultimately have "mag_le (dlit 31608 100000 - dlit 4821 1000000 * W + dlit 4632 10000 * H) max_mag"
    using assms by (intro Seidl_shape mag_le_input) simp_all
  then show ?thesis
    by (simp add: mag_le_finite is_double_plus)
qed

lemma Widmark_finite:
  "returns_finite (forward_F Widmark H W g)" "returns_finite (forward_M Widmark H W g)"
proof -
  have "mag_le (dlit 55 100) (2 ^ (1074 - 0))"
    by (rule dlit_pow) simp_all
  then show "returns_finite (forward_F Widmark H W g)"
    by (simp add: mag_le_finite is_double_dlit)
  have "mag_le (dlit 68 100) (2 ^ (1074 - 0))"
    by (rule dlit_pow) simp_all
  then show "returns_finite (forward_M Widmark H W g)"
    by (simp add: mag_le_finite is_double_dlit)
qed

lemma call_F: "call self Sex_F H W g = forward_F self H W g"
  by (simp add: call_def)

lemma call_M: "call self Sex_M H W g = forward_M self H W g"
  by (simp add: call_def Sex_M_def Sex_F_def)

lemma Watson_zero_weight:
  "returns_inf_or_nan (forward_F Watson H (Fin z 0) g)"
  "returns_inf_or_nan (forward_M Watson H (Fin z 0) g)"
  by (simp_all add: plus_inf_or_nan_r div_zero_inf_or_nan)

lemma Forrest_zero_height:
  "returns_inf_or_nan (forward_F Forrest (Fin z 0) W g)"
  "returns_inf_or_nan (forward_M Forrest (Fin z 0) W g)"
  by (simp_all add: times_zero_zero minus_inf_or_nan_r div_zero_inf_or_nan)

lemma Average_zero_weight:
  "returns_inf_or_nan (forward_F Average H (Fin z 0) g)"
  "returns_inf_or_nan (forward_M Average H (Fin z 0) g)"
  by (simp_all add: plus_inf_or_nan_r minus_inf_or_nan_r times_inf_or_nan_l div_zero_inf_or_nan)

lemma Average_zero_height:
  "returns_inf_or_nan (forward_F Average (Fin z 0) W g)"
  "returns_inf_or_nan (forward_M Average (Fin z 0) W g)"
  by (simp_all add: times_zero_zero plus_inf_or_nan_l plus_inf_or_nan_r minus_inf_or_nan_l
      minus_inf_or_nan_r times_inf_or_nan_r div_zero_inf_or_nan)

lemma Watson_F_sample: "forward_F Watson (dlit 170 100) (Fin False 0) g = Inr (Infty False)"
proof -
  have c0: "mag_le (dlit 29218 100000) (1 * one_mag)"
    by (rule dlit_le_int) simp_all
  have c1: "pos_ge (dlit 12666 1000) (12 * one_mag)"
    by (rule dlit_ge_int) simp_all
  have H: "pos_ge (dlit 170 100) (1 * one_mag)"
    by (rule dlit_ge_int) simp_all
  have c2: "mag_le (dlit 24846 10000) (3 * one_mag)"
    by (rule dlit_le_int) simp_all
  from c1 H have "pos_ge (dlit 12666 1000 * dlit 170 100) (12 * one_mag)"
    by (rule times_pos_ge_ints) simp_all
  moreover from c2 have "mag_le (dneg (dlit 24846 10000)) (3 * one_mag)"
    by (simp only: mag_le_dneg)
  ultimately have "pos_ge (dneg (dlit 24846 10000) + dlit 12666 1000 * dlit 170 100) (9 * one_mag)"
    by (intro plus_pos_ge_int [where a = 3 and b = 12]) simp_all
  then have "pos_ge (dlit 12666 1000 * dlit 170 100 - dlit 24846 10000) (9 * one_mag)"
    by (simp only: minus_double_def plus_double_def [symmetric] plus_commute)
  then have "(dlit 12666 1000 * dlit 170 100 - dlit 24846 10000) / Fin False 0 = Infty False"
    by (rule pos_divide_zero) simp
  with c0 show ?thesis
    by (simp add: mag_le_plus_infinity)
qed

lemma Watson_M_at_zero:
  "mag_le (dlit 39834 100000 + (dlit 12725 1000 * Fin False 0
      - dlit 11275 100000 * Fin False 0 + dlit 28993 10000) / Fin False one_mag) (5 * one_mag)"
proof -
  have c0: "mag_le (dlit 39834 100000) (1 * one_mag)"
    by (rule dlit_le_int) simp_all
  have c1: "mag_le (dlit 12725 1000) (16 * one_mag)"
    by (rule dlit_le_int) simp_all
  have c2: "mag_le (dlit 11275 100000) (1 * one_mag)"
    by (rule dlit_le_int) simp_all
  have c3: "mag_le (dlit 28993 10000) (4 * one_mag)"
    by (rule dlit_le_int) simp_all
  from c1 have "mag_le (dlit 12725 1000 * Fin False 0) (0 * one_mag)"
    by (rule times_zero_r)
  moreover from c2 have "mag_le (dlit 11275 100000 * Fin False 0) (0 * one_mag)"
    by (rule times_zero_r)
  ultimately have "mag_le (dlit 12725 1000 * Fin False 0 - dlit 11275 100000 * Fin False 0)
      (0 * one_mag)"
    by (rule minus_mag_le_int) simp_all
  from this c3 have "mag_le (dlit 12725 1000 * Fin False 0 - dlit 11275 100000 * Fin False 0
      + dlit 28993 10000) (4 * one_mag)"
    by (rule plus_mag_le_int) simp_all
  then have "mag_le ((dlit 12725 1000 * Fin False 0 - dlit 11275 100000 * Fin False 0
      + dlit 28993 10000) / Fin False one_mag) (4 * one_mag)"
    by (rule divide_one_mag_le_int) simp
  with c0 show ?thesis
    by (rule plus_mag_le_int) simp_all
qed

lemma Watson_M_at_minus_1024:
  "pos_ge (dlit 39834 100000 + (dlit 12725 1000 * Fin False 0
      - dlit 11275 100000 * (- dlit 1024 1) + dlit 28993 10000) / Fin False one_mag) (16 * one_mag)"
proof -
  have c0: "mag_le (dlit 39834 100000) (1 * one_mag)"
    by (rule dlit_le_int) simp_all
  have c1: "mag_le (dlit 12725 1000) (16 * one_mag)"
    by (rule dlit_le_int) simp_all
  have c2: "pos_ge (dlit 11275 100000) (2 ^ (1074 - 4))"
    by (rule dlit_pos_ge) simp_all
  have c3: "mag_le (dlit 28993 10000) (4 * one_mag)"
    by (rule dlit_le_int) simp_all
  have g: "pos_ge (dlit 1024 1) (1024 * one_mag)"
    by (rule dlit_int_pos_ge) simp
  from c2 g have p: "pos_ge (dlit 11275 100000 * dlit 1024 1) (64 * one_mag)"
    by (rule times_pos_ge_int) simp_all
  from c1 have "mag_le (dlit 12725 1000 * Fin False 0) (0 * one_mag)"
    by (rule times_zero_r)
  from this p have "pos_ge (dlit 12725 1000 * Fin False 0 + dlit 11275 100000 * dlit 1024 1)
      (64 * one_mag)"
    by (rule plus_pos_ge_int) simp_all
  with c3 have "pos_ge (dlit 28993 10000
      + (dlit 12725 1000 * Fin False 0 + dlit 11275 100000 * dlit 1024 1)) (32 * one_mag)"
    by (rule plus_pos_ge_int) simp_all
  then have "pos_ge ((dlit 12725 1000 * Fin False 0 + dlit 11275 100000 * dlit 1024 1
      + dlit 28993 10000) / Fin False one_mag) (32 * one_mag)"
    by (subst plus_commute) (rule divide_one_pos_ge_int, simp_all)
  with c0 have "pos_ge (dlit 39834 100000 + (dlit 12725 1000 * Fin False 0
      + dlit 11275 100000 * dlit 1024 1 + dlit 28993 10000) / Fin False one_mag) (16 * one_mag)"
    by (rule plus_pos_ge_int) simp_all
  then show ?thesis
    by (simp only: times_uminus_r minus_uminus)
qed

lemma Watson_M_uses_adjustment:
  "forward_M Watson (dlit 0 1) (dlit 1 1) (dlit 0 1)
   \<noteq> forward_M Watson (dlit 0 1) (dlit 1 1) (- dlit 1024 1)"
  unfolding forward_M.simps dlit_0 dlit_one sum.inject
  using Watson_M_at_zero Watson_M_at_minus_1024 by (rule differ_int) simp

lemma Average_M_left:
  "mag_le (dlit 62544 100000 + dlit 13664 100000 * Fin False one_mag
      - Fin False one_mag
        * (dlit 189 100000 + dlit 2425 1000000 / (Fin False one_mag * Fin False one_mag)))
     (4 * one_mag)"
proof -
  have c0: "mag_le (dlit 62544 100000) (1 * one_mag)"
    by (rule dlit_le_int) simp_all
  have c1: "mag_le (dlit 13664 100000) (1 * one_mag)"
    by (rule dlit_le_int) simp_all
  have c2: "mag_le (dlit 189 100000) (1 * one_mag)"
    by (rule dlit_le_int) simp_all
  have c3: "mag_le (dlit 2425 1000000) (1 * one_mag)"
    by (rule dlit_le_int) simp_all
  from c1 have "mag_le (dlit 13664 100000 / Fin False one_mag) (1 * one_mag)"
    by (rule divide_one_mag_le_int) simp
  with c0 have l: "mag_le (dlit 62544 100000 + dlit 13664 100000 / Fin False one_mag) (2 * one_mag)"
    by (rule plus_mag_le_int) simp_all
  from c3 have "mag_le (dlit 2425 1000000 / Fin False one_mag) (1 * one_mag)"
    by (rule divide_one_mag_le_int) simp
  with c2 have "mag_le (dlit 189 100000 + dlit 2425 1000000 / Fin False one_mag) (2 * one_mag)"
    by (rule plus_mag_le_int) simp_all
  then have "mag_le ((dlit 189 100000 + dlit 2425 1000000 / Fin False one_mag)
      / Fin False one_mag) (2 * one_mag)"
    by (rule divide_one_mag_le_int) simp
  with l have "mag_le (dlit 62544 100000 + dlit 13664 100000 / Fin False one_mag
      - (dlit 189 100000 + dlit 2425 1000000 / Fin False one_mag) / Fin False one_mag)
      (4 * one_mag)"
    by (rule minus_mag_le_int) simp_all
  then show ?thesis
    by (simp only: times_one_eq_divide_one one_div_one
        times_commute [of "Fin False one_mag"])
qed

lemma Average_M_at_zero:
  "mag_le (dlit 62544 100000 + dlit 13664 100000 * Fin False one_mag
      - Fin False one_mag
        * (dlit 189 100000 + dlit 2425 1000000 / (Fin False one_mag * Fin False one_mag))
      + (Fin False one_mag / Fin False one_mag)
        * (dlit 57986 100000 + dlit 2545 1000 * Fin False one_mag
           - dlit 2255 100000 * Fin False 0))
     (9 * one_mag)"
proof -
  have c4: "mag_le (dlit 57986 100000) (1 * one_mag)"
    by (rule dlit_le_int) simp_all
  have c5: "mag_le (dlit 2545 1000) (4 * one_mag)"
    by (rule dlit_le_int) simp_all
  have c6: "mag_le (dlit 2255 100000) (1 * one_mag)"
    by (rule dlit_le_int) simp_all
  from c5 have "mag_le (dlit 2545 1000 / Fin False one_mag) (4 * one_mag)"
    by (rule divide_one_mag_le_int) simp
  with c4 have "mag_le (dlit 57986 100000 + dlit 2545 1000 / Fin False one_mag) (5 * one_mag)"
    by (rule plus_mag_le_int) simp_all
  moreover from c6 have "mag_le (dlit 2255 100000 * Fin False 0) (0 * one_mag)"
    by (rule times_zero_r)
  ultimately have "mag_le (dlit 57986 100000 + dlit 2545 1000 / Fin False one_mag
      - dlit 2255 100000 * Fin False 0) (5 * one_mag)"
    by (rule minus_mag_le_int) simp_all
  then have "mag_le ((dlit 57986 100000 + dlit 2545 1000 / Fin False one_mag
      - dlit 2255 100000 * Fin False 0) / Fin False one_mag) (5 * one_mag)"
    by (rule divide_one_mag_le_int) simp
  then have "mag_le ((Fin False one_mag / Fin False one_mag)
        * (dlit 57986 100000 + dlit 2545 1000 * Fin False one_mag
           - dlit 2255 100000 * Fin False 0)) (5 * one_mag)"
    by (simp only: times_one_eq_divide_one one_div_one
        times_commute [of "Fin False one_mag"])
  with Average_M_left show ?thesis
    by (rule plus_mag_le_int) simp_all
qed

lemma Average_M_at_minus_65536:
  "pos_ge (dlit 62544 100000 + dlit 13664 100000 * Fin False one_mag
      - Fin False one_mag
        * (dlit 189 100000 + dlit 2425 1000000 / (Fin False one_mag * Fin False one_mag))
      + (Fin False one_mag / Fin False one_mag)
        * (dlit 57986 100000 + dlit 2545 1000 * Fin False one_mag
           - dlit 2255 100000 * (- dlit 65536 1)))
     (512 * one_mag)"
proof -
  have c4: "mag_le (dlit 57986 100000) (1 * one_mag)"
    by (rule dlit_le_int) simp_all
  have c5: "mag_le (dlit 2545 1000) (4 * one_mag)"
    by (rule dlit_le_int) simp_all
  have c6: "pos_ge (dlit 2255 100000) (2 ^ (1074 - 6))"
    by (rule dlit_pos_ge) simp_all
  have g: "pos_ge (dlit 65536 1) (65536 * one_mag)"
    by (rule dlit_int_pos_ge) simp
  from c6 g have p: "pos_ge (dlit 2255 100000 * dlit 65536 1) (1024 * one_mag)"
    by (rule times_pos_ge_int) simp_all
  from c5 have "mag_le (dlit 2545 1000 / Fin False one_mag) (4 * one_mag)"
    by (rule divide_one_mag_le_int) simp
  with c4 have "mag_le (dlit 57986 100000 + dlit 2545 1000 / Fin False one_mag) (5 * one_mag)"
    by (rule plus_mag_le_int) simp_all
  from this p have "pos_ge (dlit 57986 100000 + dlit 2545 1000 / Fin False one_mag
      + dlit 2255 100000 * dlit 65536 1) (1019 * one_mag)"
    by (rule plus_pos_ge_int) simp_all
  then have "pos_ge ((dlit 57986 100000 + dlit 2545 1000 / Fin False one_mag
      + dlit 2255 100000 * dlit 65536 1) / Fin False one_mag) (1019 * one_mag)"
    by (rule divide_one_pos_ge_int) simp
  then have "pos_ge ((Fin False one_mag / Fin False one_mag)
        * (dlit 57986 100000 + dlit 2545 1000 * Fin False one_mag
           - dlit 2255 100000 * (- dlit 65536 1))) (1019 * one_mag)"
    by (simp only: times_one_eq_divide_one one_div_one
        times_commute [of "Fin False one_mag"] times_uminus_r minus_uminus)
  with Average_M_left show ?thesis
    by (rule plus_pos_ge_int) simp_all
qed

lemma Average_M_uses_adjustment:
  "forward_M Average (dlit 1 1) (dlit 1 1) (dlit 0 1)
   \<noteq> forward_M Average (dlit 1 1) (dlit 1 1) (- dlit 65536 1)"
  unfolding forward_M.simps dlit_0 dlit_one sum.inject
  using Average_M_at_zero Average_M_at_minus_65536 by (rule differ_int) simp

text \<open>
  C5. \<open>Watson.call(Female, 1.70, 0.0, 18.0)\<close> returns an infinity or a NaN (it is
  plus infinity) and does not throw. More generally, wherever a formula divides by a zero (of either sign), the
  call returns an infinity or a NaN and does not throw: Watson at weight zero, Forrest at
  height zero, Average at weight zero and at height zero, for every other argument.
\<close>

theorem division_by_zero_propagates:
  "call Watson Sex_F (dlit 170 100) (dlit 0 1) (dlit 18 1) = Inr (Infty False)
   \<and> returns_inf_or_nan (call Watson Sex_F (dlit 170 100) (dlit 0 1) (dlit 18 1))
   \<and> returns_inf_or_nan (call Watson Sex_F H (Fin z 0) g)
   \<and> returns_inf_or_nan (call Watson Sex_M H (Fin z 0) g)
   \<and> returns_inf_or_nan (call Forrest Sex_F (Fin z 0) W g)
   \<and> returns_inf_or_nan (call Forrest Sex_M (Fin z 0) W g)
   \<and> returns_inf_or_nan (call Average Sex_F H (Fin z 0) g)
   \<and> returns_inf_or_nan (call Average Sex_M H (Fin z 0) g)
   \<and> returns_inf_or_nan (call Average Sex_F (Fin z 0) W g)
   \<and> returns_inf_or_nan (call Average Sex_M (Fin z 0) W g)"
  unfolding dlit_0
  by (simp add: call_F call_M Watson_F_sample Watson_zero_weight Forrest_zero_height
      Average_zero_weight Average_zero_height del: forward_F.simps forward_M.simps)

lemma dlit_170_100_le: "mag_le (dlit 170 100) (2 ^ 1075)"
proof -
  have "170 * one_mag \<le> 1 * 2 ^ 1075 * 100"
    unfolding one_mag_def pow_split [of 1075 1 1074, simplified] by simp
  moreover have "1 * 2 ^ 1075 \<le> max_mag"
    using pow_le_max_mag [of 1075] by simp
  ultimately have "mag_le (dlit 170 100) (1 * 2 ^ 1075)"
    by (intro dlit_mag_le) simp_all
  then show ?thesis by simp
qed

text \<open>
  C10. Widmark and Seidl divide nowhere: for every finite height and weight (zero
  included) and any adjustment, both branches return a finite double, while at height
  zero and weight zero Watson, Forrest and Average return an infinity or a NaN.
\<close>

theorem Widmark_Seidl_finite:
  assumes "is_double H" and "is_finite H" and "is_double W" and "is_finite W"
  shows "returns_finite (call Widmark Sex_F H W g)
   \<and> returns_finite (call Widmark Sex_M H W g)
   \<and> returns_finite (call Seidl Sex_F H W g)
   \<and> returns_finite (call Seidl Sex_M H W g)
   \<and> returns_inf_or_nan (call Watson Sex_F (Fin a 0) (Fin b 0) g')
   \<and> returns_inf_or_nan (call Watson Sex_M (Fin a 0) (Fin b 0) g')
   \<and> returns_inf_or_nan (call Forrest Sex_F (Fin a 0) (Fin b 0) g')
   \<and> returns_inf_or_nan (call Forrest Sex_M (Fin a 0) (Fin b 0) g')
   \<and> returns_inf_or_nan (call Average Sex_F (Fin a 0) (Fin b 0) g')
   \<and> returns_inf_or_nan (call Average Sex_M (Fin a 0) (Fin b 0) g')"
  by (simp add: call_F call_M Widmark_finite Seidl_F_finite [OF assms] Seidl_M_finite [OF assms]
      Watson_zero_weight Forrest_zero_height Average_zero_weight
      del: forward_F.simps forward_M.simps)

theorem Widmark_Seidl_finite_witness:
  "is_double (dlit 170 100) \<and> is_finite (dlit 170 100)
   \<and> is_double (dlit 70 1) \<and> is_finite (dlit 70 1)
   \<and> returns_finite (call Widmark Sex_F (dlit 170 100) (dlit 70 1) (dlit 18 1))
   \<and> returns_finite (call Widmark Sex_M (dlit 170 100) (dlit 70 1) (dlit 18 1))
   \<and> returns_finite (call Seidl Sex_F (dlit 170 100) (dlit 70 1) (dlit 18 1))
   \<and> returns_finite (call Seidl Sex_M (dlit 170 100) (dlit 70 1) (dlit 18 1))
   \<and> returns_inf_or_nan (call Watson Sex_F (Fin False 0) (Fin False 0) (dlit 18 1))
   \<and> returns_inf_or_nan (call Watson Sex_M (Fin False 0) (Fin False 0) (dlit 18 1))
   \<and> returns_inf_or_nan (call Forrest Sex_F (Fin False 0) (Fin False 0) (dlit 18 1))
   \<and> returns_inf_or_nan (call Forrest Sex_M (Fin False 0) (Fin False 0) (dlit 18 1))
   \<and> returns_inf_or_nan (call Average Sex_F (Fin False 0) (Fin False 0) (dlit 18 1))
   \<and> returns_inf_or_nan (call Average Sex_M (Fin False 0) (Fin False 0) (dlit 18 1))"
proof -
  have h1: "is_double (dlit 170 100)" and h3: "is_double (dlit 70 1)"
    by (simp_all add: is_double_dlit)
  have h2: "is_finite (dlit 170 100)"
    using dlit_170_100_le by (rule mag_le_finite)
  have h4: "is_finite (dlit 70 1)"
    by (simp add: dlit_small_int [of 70, simplified])
  from Widmark_Seidl_finite [OF h1 h2 h3 h4, of "dlit 18 1" False False "dlit 18 1"] h1 h2 h3 h4
  show ?thesis
    by (intro conjI) (elim conjE, assumption)+
qed

text \<open>
  C1. For every strategy and sex for which the table of the specification has a formula
  (all but Ulrich and Female) and every input, \<open>call\<close> returns the value of that
  formula, evaluated in double precision.
\<close>

theorem call_matches_formula_table:
  assumes "formula_table self x = Some f"
  shows "call self (tag_of x) H W g = Inr (f H W g)"
  using assms by (cases self; cases x) (auto simp add: call_F call_M)

theorem call_matches_formula_table_witness:
  "formula_table Watson Female =
     Some (\<lambda>H W g. dlit 29218 100000 + (dlit 12666 1000 * H - dlit 24846 10000) / W)
   \<and> call Watson (tag_of Female) (dlit 170 100) (dlit 70 1) (dlit 18 1) =
     Inr (dlit 29218 100000 + (dlit 12666 1000 * dlit 170 100 - dlit 24846 10000) / dlit 70 1)"
  using call_matches_formula_table [of Watson Female
      "\<lambda>H W g. dlit 29218 100000 + (dlit 12666 1000 * H - dlit 24846 10000) / W"
      "dlit 170 100" "dlit 70 1" "dlit 18 1"]
  by simp

section \<open>The two errors\<close>

text \<open>
  The error of a bad sex tag and the error of Ulrich's female branch are objects of one
  class, \<open>std::invalid_argument\<close>: a handler for that class catches both.
\<close>

theorem same_exception_class_counterexample:
  "call Widmark 2 (Fin False 0) (Fin False 0) (Fin False 0)
     = Inl (Exn invalid_argument ''Invalid sex'')
   \<and> call Ulrich Sex_F (Fin False 0) (Fin False 0) (Fin False 0)
     = Inl (Exn invalid_argument ''No estimator available'')
   \<and> cls (Exn invalid_argument ''Invalid sex'')
     = cls (Exn invalid_argument ''No estimator available'')"
  by (simp add: call_def Sex_M_def Sex_F_def)

text \<open>
  C4, as the code has it. For every input on which each is raised, both errors are of
  class \<open>std::invalid_argument\<close>; they differ in their message only, "Invalid sex"
  against "No estimator available".
\<close>

theorem errors_differ_by_message_only:
  assumes "sex \<noteq> Sex_M" and "sex \<noteq> Sex_F"
  shows "\<exists>e1 e2. call self sex H W g = Inl e1 \<and> call Ulrich Sex_F H' W' g' = Inl e2
    \<and> cls e1 = invalid_argument \<and> cls e2 = invalid_argument
    \<and> what e1 = ''Invalid sex'' \<and> what e2 = ''No estimator available''
    \<and> what e1 \<noteq> what e2 \<and> e1 \<noteq> e2"
  using assms by (simp add: call_def)

theorem errors_differ_by_message_only_witness:
  "(2 :: Sex) \<noteq> Sex_M \<and> (2 :: Sex) \<noteq> Sex_F
   \<and> (\<exists>e1 e2. call Seidl 2 (dlit 170 100) (dlit 70 1) (dlit 18 1) = Inl e1
      \<and> call Ulrich Sex_F (dlit 170 100) (dlit 70 1) (dlit 18 1) = Inl e2
      \<and> cls e1 = invalid_argument \<and> cls e2 = invalid_argument
      \<and> what e1 = ''Invalid sex'' \<and> what e2 = ''No estimator available''
      \<and> what e1 \<noteq> what e2 \<and> e1 \<noteq> e2)"
proof -
  have a: "(2 :: Sex) \<noteq> Sex_M" and b: "(2 :: Sex) \<noteq> Sex_F"
    by (simp_all add: Sex_M_def Sex_F_def)
  from a b errors_differ_by_message_only [OF a b, of Seidl "dlit 170 100" "dlit 70 1" "dlit 18 1"
      "dlit 170 100" "dlit 70 1" "dlit 18 1"]
  show ?thesis by blast
qed

section \<open>The adjustment\<close>

text \<open>
  C6. Two calls that differ only in the adjustment \<open>g\<close> give the same result in every
  female branch, and in every male branch but Watson's and Average's; each of these two
  gives different results for two adjustments, at a height and weight that are shown.
\<close>

theorem adjustment_ignored:
  "forward_F self H W g = forward_F self H W g'
   \<and> call self Sex_F H W g = call self Sex_F H W g'
   \<and> (self \<noteq> Watson \<and> self \<noteq> Average \<longrightarrow>
        forward_M self H W g = forward_M self H W g'
        \<and> call self Sex_M H W g = call self Sex_M H W g')
   \<and> forward_M Watson (dlit 0 1) (dlit 1 1) (dlit 0 1)
       \<noteq> forward_M Watson (dlit 0 1) (dlit 1 1) (- dlit 1024 1)
   \<and> forward_M Average (dlit 1 1) (dlit 1 1) (dlit 0 1)
       \<noteq> forward_M Average (dlit 1 1) (dlit 1 1) (- dlit 65536 1)"
proof -
  have "forward_F self H W g = forward_F self H W g'"
    by (cases self) simp_all
  moreover have "forward_M self H W g = forward_M self H W g'"
    if "self \<noteq> Watson" and "self \<noteq> Average"
    using that by (cases self) simp_all
  ultimately show ?thesis
    using Watson_M_uses_adjustment Average_M_uses_adjustment
    by (simp add: call_F call_M del: forward_F.simps forward_M.simps)
qed

theorem adjustment_ignored_witness:
  "Ulrich \<noteq> Watson \<and> Ulrich \<noteq> Average
   \<and> forward_F Ulrich (dlit 170 100) (dlit 70 1) (dlit 18 1)
     = forward_F Ulrich (dlit 170 100) (dlit 70 1) (dlit 40 1)
   \<and> call Ulrich Sex_F (dlit 170 100) (dlit 70 1) (dlit 18 1)
     = call Ulrich Sex_F (dlit 170 100) (dlit 70 1) (dlit 40 1)
   \<and> forward_M Ulrich (dlit 170 100) (dlit 70 1) (dlit 18 1)
     = forward_M Ulrich (dlit 170 100) (dlit 70 1) (dlit 40 1)
   \<and> call Ulrich Sex_M (dlit 170 100) (dlit 70 1) (dlit 18 1)
     = call Ulrich Sex_M (dlit 170 100) (dlit 70 1) (dlit 40 1)"
  using adjustment_ignored [of Ulrich "dlit 170 100" "dlit 70 1" "dlit 18 1" "dlit 40 1"]
  by simp

section \<open>The driver\<close>


lemma main_locals:
  "main_H = Fin False (170 * one_mag)" "main_W = Fin False (70 * one_mag)"
  "main_g = Fin False (18 * one_mag)"
  unfolding main_H_def main_W_def main_g_def
  by (rule dlit_small_int, simp)+

text \<open>The height the driver passes to every call is 170.0, not 1.70.\<close>

theorem driver_height_counterexample:
  "main = main_body main_H (dlit 70 1) (dlit 18 1)
   \<and> main_H = dlit 170 1
   \<and> main_H \<noteq> dlit 170 100"
proof -
  have "\<not> mag_le main_H (2 ^ 1075)"
    unfolding main_locals one_mag_def pow_split [of 1075 1 1074, simplified] by simp
  with dlit_170_100_le have "main_H \<noteq> dlit 170 100"
    by auto
  then show ?thesis
    by (simp add: main_def main_H_def main_W_def main_g_def)
qed

lemma print_call_returns:
  "call self sex H W g = Inr v \<Longrightarrow>
   print_call label self sex H W g out = (Inr (), out @ [Str label, Dbl v, Endl])"
  by (simp add: print_call_def then_stmt_def bind_stmt_def put_def eval_call_def)

lemma print_call_throws:
  "call self sex H W g = Inl e \<Longrightarrow>
   print_call label self sex H W g out = (Inl e, out @ [Str label])"
  by (simp add: print_call_def then_stmt_def bind_stmt_def put_def eval_call_def)

lemma then_stmt_returns: "m out = (Inr (), out') \<Longrightarrow> then_stmt m k out = k out'"
  by (simp add: then_stmt_def bind_stmt_def)

text \<open>
  C9, as the code has it. The driver calls each strategy with height 170.0, weight 70.0
  and adjustment 18.0 and prints the results in the order of the source; Ulrich's female
  call throws after its label is printed, and the handler prints the label and the
  message. It returns 0.
\<close>

theorem driver_output:
  "\<exists>v1 v2 v3 v4 v5 v6 v7 v8 v9 v10 v11.
     call Widmark Sex_F (dlit 170 1) (dlit 70 1) (dlit 18 1) = Inr v1
   \<and> call Widmark Sex_M (dlit 170 1) (dlit 70 1) (dlit 18 1) = Inr v2
   \<and> call Watson Sex_F (dlit 170 1) (dlit 70 1) (dlit 18 1) = Inr v3
   \<and> call Watson Sex_M (dlit 170 1) (dlit 70 1) (dlit 18 1) = Inr v4
   \<and> call Forrest Sex_F (dlit 170 1) (dlit 70 1) (dlit 18 1) = Inr v5
   \<and> call Forrest Sex_M (dlit 170 1) (dlit 70 1) (dlit 18 1) = Inr v6
   \<and> call Seidl Sex_F (dlit 170 1) (dlit 70 1) (dlit 18 1) = Inr v7
   \<and> call Seidl Sex_M (dlit 170 1) (dlit 70 1) (dlit 18 1) = Inr v8
   \<and> call Ulrich Sex_M (dlit 170 1) (dlit 70 1) (dlit 18 1) = Inr v9
   \<and> call Average Sex_F (dlit 170 1) (dlit 70 1) (dlit 18 1) = Inr v10
   \<and> call Average Sex_M (dlit 170 1) (dlit 70 1) (dlit 18 1) = Inr v11
   \<and> main out = (Inr 0, out @
       [Str ''Widmark (F): '', Dbl v1, Endl,
        Str ''Widmark (M): '', Dbl v2, Endl,
        Str ''Watson (F): '', Dbl v3, Endl,
        Str ''Watson (M): '', Dbl v4, Endl,
        Str ''Forrest (F): '', Dbl v5, Endl,
        Str ''Forrest (M): '', Dbl v6, Endl,
        Str ''Seidl (F): '', Dbl v7, Endl,
        Str ''Seidl (M): '', Dbl v8, Endl,
        Str ''Ulrich (F): '', Str ''Ulrich (F): '', Str ''No estimator available'', Endl,
        Str ''Ulrich (M): '', Dbl v9, Endl,
        Str ''Average (F): '', Dbl v10, Endl,
        Str ''Average (M): '', Dbl v11, Endl])"
  unfolding main_def main_body_def main_H_def main_W_def main_g_def
  by (simp add: call_F call_M print_call_def then_stmt_def bind_stmt_def put_def eval_call_def
      try_catch_def)

end
